theory Spec2Isabelle
  imports Complex_Main "HOL-Library.AList"
begin

section \<open>The Moveris streaming client (live/python/moveris\_client.py)\<close>

text \<open>
  A shallow embedding of the class \<open>MoverisClient\<close>. The object is a record that every
  method takes and returns; what a method does to the outside world (log lines, calls
  on the websocket and the camera, sleeps) is returned as a list of effects, in order.
  What the outside world answers (clock readings of \<open>time.time()\<close>, what \<open>recv\<close>
  delivers, whether \<open>send\<close> returns or raises) is a parameter of the method.

  Timestamps are Python floats; they are idealised as reals. The two float facts the
  model relies on hold for finite floats: \<open>a - b\<close> is zero exactly when \<open>a = b\<close>, and
  dividing by a zero float raises \<open>ZeroDivisionError\<close>.
\<close>

subsection \<open>Data\<close>

datatype level = INFO | WARNING | ERROR

datatype py_exception =
    ZeroDivisionError | TypeError | ValueError | OverflowError | KeyError | AttributeError
  | JSONDecodeError | TransportError

text \<open>
  A value that \<open>json.loads\<close> builds. An object is the dict it builds, as an association
  list with distinct keys.
\<close>

datatype json =
    JNull
  | JBool bool
  | JInt int
  | JFloat real
  | JStr string
  | JArr "json list"
  | JObj "(string \<times> json) list"

datatype out_msg =
    AuthRequest string
  | Frame int string real

text \<open>
  \<open>WsSend m\<close> records the call \<open>websocket.send(json.dumps(m))\<close>, whether or not it
  returns; \<open>LogAck\<close>, \<open>LogResult\<close> and \<open>LogStats\<close> are the log lines that format
  computed values.
\<close>

datatype effect =
    Log level string
  | LogAck int int real
  | LogResult json json real real real
  | LogStats real int real
  | WsSend out_msg
  | WsClose
  | CameraRelease
  | Sleep real

text \<open>
  An inbound JSON object, by the fields the client reads; \<open>None\<close> is a field that is
  absent. The tag, the texts and the two counters of an acknowledgement have the type
  the message schema gives them. \<open>frames_processed\<close> and \<open>result\<close> are whatever value the
  server sent: the handler formats them and reads fields of \<open>result\<close>, and what it does
  depends on the kind of value.
\<close>

record message =
  f_type :: "string option"
  f_frame_number :: "int option"
  f_total_frames :: "int option"
  f_message :: "string option"
  f_reason :: "string option"
  f_frames_processed :: "json option"
  f_result :: "json option"

text \<open>
  What one \<open>await asyncio.wait_for(self.websocket.recv(), timeout=1.0)\<close> followed by
  \<open>json.loads\<close> yields: the wait times out, \<open>recv\<close> raises something else (the
  connection was closed), the text is not JSON, it is JSON but not an object, or it is
  an object, received at the given clock reading.
\<close>

datatype inbound =
    RecvTimeout
  | RecvRaises
  | BadJson
  | NonObject
  | Msg message real

record client =
  ws_url :: string
  secret_key :: string
  frame_rate :: int
  quality :: int
  websocket :: "nat option"
  is_authenticated :: bool
  is_streaming :: bool
  frame_count :: int
  server_buffer :: int
  connection_start :: "real option"
  send_times :: "(int \<times> real) list"
  ack_times :: "real list"
  frame_times :: "real list"
  camera :: "nat option"

text \<open>
  \<open>send_times\<close> is a Python dict with integer keys: an association list in insertion
  order whose keys are distinct. \<open>d[k] = v\<close> is \<open>AList.update\<close>, \<open>del d[k]\<close> for a key
  that is present is \<open>AList.delete\<close>, \<open>k in d\<close> is \<open>map_of d k \<noteq> None\<close>, \<open>len(d)\<close> is
  \<open>length\<close>.
\<close>

definition init :: "string \<Rightarrow> string \<Rightarrow> int \<Rightarrow> int \<Rightarrow> client" where
  "init url key rate q =
     \<lparr> ws_url = url, secret_key = key, frame_rate = rate, quality = q,
       websocket = None, is_authenticated = False, is_streaming = False,
       frame_count = 0, server_buffer = 0, connection_start = None,
       send_times = [], ack_times = [], frame_times = [], camera = None \<rparr>"

subsection \<open>connect, authenticate, camera\<close>

text \<open>\<open>conn\<close> is what \<open>websockets.connect\<close> returns, \<open>None\<close> when it raises.\<close>

definition connect :: "client \<Rightarrow> nat option \<Rightarrow> real \<Rightarrow> bool \<times> client \<times> effect list" where
  "connect s conn now =
     (case conn of
        None \<Rightarrow> (False, s, [Log INFO ''Connecting'', Log ERROR ''Connection failed''])
      | Some h \<Rightarrow>
          (True, s\<lparr>websocket := Some h, connection_start := Some now\<rparr>,
           [Log INFO ''Connecting'', Log INFO ''Connected successfully'']))"

text \<open>
  The polling loop of \<open>authenticate\<close>. Each iteration reads the clock for the loop
  condition and then waits for one message. The environment is a finite prefix of
  such iterations; \<open>None\<close> says the prefix ended with the loop still waiting.
\<close>

fun auth_loop :: "client \<Rightarrow> real \<Rightarrow> (real \<times> inbound) list \<Rightarrow> (bool \<times> client \<times> effect list) option" where
  "auth_loop s start_time [] = None"
| "auth_loop s start_time ((now, r) # rest) =
     (if now - start_time < 10 then
        (case r of
           RecvTimeout \<Rightarrow> auth_loop s start_time rest
         | RecvRaises \<Rightarrow> Some (False, s, [Log ERROR ''Authentication error''])
         | BadJson \<Rightarrow> Some (False, s, [Log ERROR ''Authentication error''])
         | NonObject \<Rightarrow> Some (False, s, [Log ERROR ''Authentication error''])
         | Msg data t \<Rightarrow>
             (case f_type data of
                None \<Rightarrow> Some (False, s, [Log ERROR ''Authentication error''])
              | Some ty \<Rightarrow>
                  if ty = ''auth_success'' then
                    Some (True, s\<lparr>is_authenticated := True\<rparr>,
                          [Log INFO ''Authentication successful''])
                  else if ty = ''error'' then
                    (case f_message data of
                       None \<Rightarrow> Some (False, s, [Log ERROR ''Authentication error''])
                     | Some m \<Rightarrow> Some (False, s, [Log ERROR (''Auth failed: '' @ m)]))
                  else auth_loop s start_time rest))
      else Some (False, s, [Log ERROR ''Authentication timeout'']))"


text \<open>
  \<open>cam\<close> is what \<open>cv2.VideoCapture(0)\<close> gives: \<open>None\<close> when it raises, otherwise the
  handle and whether \<open>isOpened()\<close> holds.
\<close>

definition open_camera :: "client \<Rightarrow> (nat \<times> bool) option \<Rightarrow> bool \<times> client \<times> effect list" where
  "open_camera s cam =
     (case cam of
        None \<Rightarrow> (False, s, [Log INFO ''Opening camera...'', Log ERROR ''Camera error''])
      | Some (h, opened) \<Rightarrow>
          if \<not> opened then
            (False, s\<lparr>camera := Some h\<rparr>,
             [Log INFO ''Opening camera...'', Log ERROR ''Failed to open camera''])
          else
            (True, s\<lparr>camera := Some h\<rparr>,
             [Log INFO ''Opening camera...'', Log INFO ''Camera opened successfully'']))"

text \<open>
  What reading and encoding one frame gives: the base64 text, a read that reports
  failure (\<open>ret\<close> is false), or an exception somewhere in lines 137 to 148.
\<close>

datatype grab_result = Grabbed string | ReadFailed | CaptureRaises

definition capture_frame :: "client \<Rightarrow> grab_result \<Rightarrow> string option \<times> effect list" where
  "capture_frame s grabbed =
     (if camera s = None then (None, [])
      else (case grabbed of
              Grabbed base64_frame \<Rightarrow> (Some base64_frame, [])
            | ReadFailed \<Rightarrow> (None, [Log WARNING ''Failed to capture frame''])
            | CaptureRaises \<Rightarrow> (None, [Log ERROR ''Frame capture error''])))"

subsection \<open>send\_frame\<close>

text \<open>\<open>sorted(self.send_times.keys())[:-1000]\<close>\<close>

definition old_keys :: "(int \<times> real) list \<Rightarrow> int list" where
  "old_keys d = take (length d - 1000) (sort (map fst d))"

definition send_frame :: "client \<Rightarrow> string \<Rightarrow> real \<Rightarrow> bool \<Rightarrow> bool \<times> client \<times> effect list" where
  "send_frame s frame_data send_time send_returns =
     (if websocket s = None \<or> \<not> is_authenticated s then (False, s, [])
      else
        let n = frame_count s + 1;
            pending = AList.update n send_time (send_times s);
            kept = (if length pending > 1000
                    then fold AList.delete (old_keys pending) pending
                    else pending);
            s' = s\<lparr>frame_count := n, send_times := kept\<rparr>;
            call = WsSend (Frame n frame_data send_time)
        in if send_returns then (True, s', [call])
           else (False, s', [call, Log ERROR ''Send error'']))"

subsection \<open>handle\_messages\<close>

datatype flow = Continue | Break | Raise py_exception

text \<open>
  Lines 204 to 214: the latency of an acknowledged frame. The first component is the
  latency that was computed, if any.
\<close>

definition calculate_ack_latency :: "client \<Rightarrow> int option \<Rightarrow> real \<Rightarrow> real option \<times> client" where
  "calculate_ack_latency s frame_num receive_time =
     (case frame_num of
        None \<Rightarrow> (None, s)
      | Some k \<Rightarrow>
          (case map_of (send_times s) k of
             None \<Rightarrow> (None, s)
           | Some sent \<Rightarrow>
               let ack_latency = (receive_time - sent) * 1000;
                   acks = ack_times s @ [ack_latency];
                   acks' = (if length acks > 50 then tl acks else acks)
               in (Some ack_latency,
                   s\<lparr>ack_times := acks', send_times := AList.delete k (send_times s)\<rparr>)))"

definition avg_ack :: "real list \<Rightarrow> real" where
  "avg_ack xs = (if xs \<noteq> [] then sum_list xs / real (length xs) else 0)"

text \<open>\<open>frame_num % 50\<close> raises \<open>TypeError\<close> when the field was absent.\<close>

definition on_frame_received :: "client \<Rightarrow> message \<Rightarrow> real \<Rightarrow> flow \<times> client \<times> effect list" where
  "on_frame_received s data receive_time =
     (let frame_num = f_frame_number data;
          s1 = snd (calculate_ack_latency s frame_num receive_time);
          s2 = s1\<lparr>server_buffer := (case f_total_frames data of None \<Rightarrow> 0 | Some b \<Rightarrow> b)\<rparr>
      in case frame_num of
           None \<Rightarrow> (Raise TypeError, s2, [])
         | Some k \<Rightarrow>
             if k mod 50 = 0
             then (Continue, s2, [LogAck k (server_buffer s2) (avg_ack (ack_times s2))])
             else (Continue, s2, []))"

definition get_or :: "'a option \<Rightarrow> 'a \<Rightarrow> 'a" where
  "get_or v d = (case v of None \<Rightarrow> d | Some x \<Rightarrow> x)"

text \<open>
  The pieces of the f-string of lines 240 to 246, each of which can raise, chained so
  that the first exception ends the evaluation:
  \<^item> \<open>result.get(key, fallback)\<close> exists only for an object;
  \<^item> \<open>value * 100\<close> multiplies a number, repeats a string or a list, and raises for
    \<open>None\<close> and for an object;
  \<^item> the format \<open>.2f\<close> (or \<open>.4f\<close>) prints a number, converting an integer to a float
    (which raises from \<open>2 ^ 1024 - 2 ^ 970\<close> on), and raises for every other value.
\<close>

definition py_bind :: "py_exception + 'a \<Rightarrow> ('a \<Rightarrow> py_exception + 'b) \<Rightarrow> py_exception + 'b" where
  "py_bind r f = (case r of Inl e \<Rightarrow> Inl e | Inr v \<Rightarrow> f v)"

definition py_get :: "json \<Rightarrow> string \<Rightarrow> json \<Rightarrow> py_exception + json" where
  "py_get obj key fallback =
     (case obj of
        JObj members \<Rightarrow> Inr (get_or (map_of members key) fallback)
      | _ \<Rightarrow> Inl AttributeError)"

definition times_100 :: "json \<Rightarrow> py_exception + json" where
  "times_100 v =
     (case v of
        JNull \<Rightarrow> Inl TypeError
      | JBool b \<Rightarrow> Inr (JInt (if b then 100 else 0))
      | JInt k \<Rightarrow> Inr (JInt (k * 100))
      | JFloat x \<Rightarrow> Inr (JFloat (x * 100))
      | JStr text \<Rightarrow> Inr (JStr (concat (replicate 100 text)))
      | JArr xs \<Rightarrow> Inr (JArr (concat (replicate 100 xs)))
      | JObj members \<Rightarrow> Inl TypeError)"

definition format_f :: "json \<Rightarrow> py_exception + real" where
  "format_f v =
     (case v of
        JNull \<Rightarrow> Inl TypeError
      | JBool b \<Rightarrow> Inr (if b then 1 else 0)
      | JInt k \<Rightarrow>
          if \<bar>k\<bar> \<ge> 2 ^ 1024 - 2 ^ 970 then Inl OverflowError else Inr (real_of_int k)
      | JFloat x \<Rightarrow> Inr x
      | JStr text \<Rightarrow> Inl ValueError
      | JArr xs \<Rightarrow> Inl TypeError
      | JObj members \<Rightarrow> Inl TypeError)"

definition on_processing_complete :: "message \<Rightarrow> py_exception + effect" where
  "on_processing_complete data =
     (let result = get_or (f_result data) (JObj []);
          frames_processed = get_or (f_frames_processed data) (JInt 0)
      in py_bind (py_get result ''prediction'' (JStr ''N/A'')) (\<lambda>prediction.
         py_bind (py_get result ''ai_probability'' (JInt 0)) (\<lambda>ai_probability.
         py_bind (times_100 ai_probability) (\<lambda>percent.
         py_bind (format_f percent) (\<lambda>shown_percent.
         py_bind (py_get result ''confidence'' (JInt 0)) (\<lambda>confidence.
         py_bind (format_f confidence) (\<lambda>shown_confidence.
         py_bind (py_get result ''processing_time_seconds'' (JInt 0)) (\<lambda>seconds.
         py_bind (format_f seconds) (\<lambda>shown_seconds.
           Inr (LogResult frames_processed prediction shown_percent shown_confidence
                  shown_seconds))))))))))"

definition dispatch :: "client \<Rightarrow> message \<Rightarrow> real \<Rightarrow> flow \<times> client \<times> effect list" where
  "dispatch s data receive_time =
     (let msg_type = f_type data in
      if msg_type = Some ''frame_received'' then on_frame_received s data receive_time
      else if msg_type = Some ''processing_started'' then
        (Continue, s, [Log INFO (''Processing: '' @ get_or (f_message data) ''Processing started'')])
      else if msg_type = Some ''processing_complete'' then
        (case on_processing_complete data of
           Inl e \<Rightarrow> (Raise e, s, [])
         | Inr line \<Rightarrow> (Continue, s, [line]))
      else if msg_type = Some ''error'' then
        (Continue, s, [Log ERROR (''Server error: '' @ get_or (f_message data) ''Unknown error'')])
      else if msg_type = Some ''disconnect'' then
        (Break, s\<lparr>is_streaming := False\<rparr>,
         [Log WARNING (''Server disconnecting: '' @ get_or (f_reason data) ''Unknown'')])
      else (Continue, s, []))"

text \<open>The body of the inner \<open>try\<close> with its two handlers.\<close>

definition consumer_iteration :: "client \<Rightarrow> inbound \<Rightarrow> flow \<times> client \<times> effect list" where
  "consumer_iteration s ev =
     (case ev of
        RecvTimeout \<Rightarrow> (Continue, s, [])
      | RecvRaises \<Rightarrow> (Raise TransportError, s, [])
      | BadJson \<Rightarrow> (Continue, s, [Log ERROR ''JSON decode error''])
      | NonObject \<Rightarrow> (Raise AttributeError, s, [])
      | Msg data receive_time \<Rightarrow> dispatch s data receive_time)"

text \<open>
  A loop runs over a finite prefix of what the environment delivers. \<open>Running\<close> says the
  prefix ended with the loop condition still true; \<open>Returned\<close> that the coroutine
  returned; \<open>Raised\<close> that an exception left it.
\<close>

datatype status = Running | Returned | Raised py_exception

text \<open>The effects of one iteration, followed by what the rest of the loop does.\<close>

definition prepend :: "effect list \<Rightarrow> status \<times> client \<times> effect list \<Rightarrow> status \<times> client \<times> effect list" where
  "prepend fx r = (case r of (st, s, fx') \<Rightarrow> (st, s, fx @ fx'))"

fun handle_messages :: "client \<Rightarrow> inbound list \<Rightarrow> status \<times> client \<times> effect list" where
  "handle_messages s [] =
     (if is_streaming s \<and> websocket s \<noteq> None then Running else Returned, s, [])"
| "handle_messages s (ev # evs) =
     (if is_streaming s \<and> websocket s \<noteq> None then
        (case consumer_iteration s ev of
           (Continue, s', fx) \<Rightarrow> prepend fx (handle_messages s' evs)
         | (Break, s', fx) \<Rightarrow> (Returned, s', fx)
         | (Raise e, s', fx) \<Rightarrow> (Returned, s', fx @ [Log ERROR ''Message handler error'']))
      else (Returned, s, []))"

subsection \<open>stream\_frames\<close>

text \<open>
  One iteration of the producer: what the camera gives, the clock reading inside
  \<open>send_frame\<close>, whether \<open>websocket.send\<close> returns, the clock readings before and after
  the pacing sleep, and where, if anywhere, an exception escapes a statement of the
  \<open>try\<close> body: on entering \<open>capture_frame\<close>, or in the pacing lines after \<open>send_frame\<close>
  (\<open>capture_frame\<close> and \<open>send_frame\<close> absorb their own).
\<close>

datatype fault_point = AtCapture | AtPacing

record producer_env =
  p_grabbed :: grab_result
  p_send_time :: real
  p_send_returns :: bool
  p_now :: real
  p_after_sleep :: real
  p_fault :: "fault_point option"

text \<open>\<open>if frame_data:\<close> is false for \<open>None\<close> and for the empty string.\<close>

definition producer_iteration ::
  "real \<Rightarrow> client \<Rightarrow> real \<Rightarrow> producer_env \<Rightarrow> client \<times> real \<times> effect list" where
  "producer_iteration frame_interval s last_frame_time e =
     (if p_fault e = Some AtCapture then
        (s, last_frame_time, [Log ERROR ''Streaming error'', Sleep 0.1])
      else
        let (frame_data, fx0) = capture_frame s (p_grabbed e);
            (s1, fx1) =
              (case frame_data of
                 None \<Rightarrow> (s, fx0)
               | Some text \<Rightarrow>
                   if text \<noteq> [] then
                     (case send_frame s text (p_send_time e) (p_send_returns e) of
                        (ok, s', fx) \<Rightarrow> (s', fx0 @ fx))
                   else (s, fx0))
        in if p_fault e = Some AtPacing then
             (s1, last_frame_time, fx1 @ [Log ERROR ''Streaming error'', Sleep 0.1])
           else
             let elapsed = p_now e - last_frame_time;
                 sleep_time = max 0 (frame_interval - elapsed)
             in (s1, p_after_sleep e,
                 fx1 @ (if sleep_time > 0 then [Sleep sleep_time] else [])))"

fun stream_loop ::
  "real \<Rightarrow> client \<Rightarrow> real \<Rightarrow> producer_env list \<Rightarrow> status \<times> client \<times> effect list" where
  "stream_loop frame_interval s last_frame_time [] =
     (if is_streaming s then Running else Returned, s, [])"
| "stream_loop frame_interval s last_frame_time (e # es) =
     (if is_streaming s then
        (case producer_iteration frame_interval s last_frame_time e of
           (s', last', fx) \<Rightarrow> prepend fx (stream_loop frame_interval s' last' es))
      else (Returned, s, []))"

text \<open>\<open>1.0 / self.frame_rate\<close> raises when the rate is zero, before the loop.\<close>

definition stream_frames ::
  "client \<Rightarrow> real \<Rightarrow> producer_env list \<Rightarrow> status \<times> client \<times> effect list" where
  "stream_frames s t0 es =
     (if frame_rate s = 0 then (Raised ZeroDivisionError, s, [])
      else stream_loop (1 / real_of_int (frame_rate s)) s t0 es)"

subsection \<open>disconnect\<close>

text \<open>
  \<open>if self.connection_start:\<close> is false for \<open>None\<close> and for the float zero. \<open>now\<close> is
  the clock reading of line 348. The first component is the exception that leaves
  \<open>disconnect\<close>, if any; the assignments made before it stay. \<open>camera.release()\<close> and
  \<open>websocket.close()\<close> are taken to return.
\<close>

definition disconnect :: "client \<Rightarrow> real \<Rightarrow> py_exception option \<times> client \<times> effect list" where
  "disconnect s now =
     (let s1 = s\<lparr>is_streaming := False\<rparr>;
          fx0 = [Log INFO ''Stopping stream...''];
          (s2, fx1) = (if camera s1 \<noteq> None
                       then (s1\<lparr>camera := None\<rparr>, [CameraRelease, Log INFO ''Camera released''])
                       else (s1, []));
          (s3, fx2) = (if websocket s2 \<noteq> None
                       then (s2\<lparr>websocket := None\<rparr>, [WsClose, Log INFO ''WebSocket closed''])
                       else (s2, []));
          fx = fx0 @ fx1 @ fx2
      in case connection_start s3 of
           None \<Rightarrow> (None, s3, fx)
         | Some started \<Rightarrow>
             if started = 0 then (None, s3, fx)
             else
               let duration = now - started in
               if duration = 0 then (Some ZeroDivisionError, s3, fx)
               else (None, s3,
                     fx @ [LogStats duration (frame_count s3)
                             (real_of_int (frame_count s3) / duration)]))"

subsection \<open>Sequences of operations\<close>

text \<open>
  The entries that a trim removed: those of \<open>before\<close> that are not in \<open>after\<close>.
  \<open>send_frames\<close> is a sequence of calls of \<open>send_frame\<close>, each with its frame, its clock
  reading and whether its \<open>websocket.send\<close> returns.
\<close>

definition evicted :: "(int \<times> real) list \<Rightarrow> (int \<times> real) list \<Rightarrow> (int \<times> real) list" where
  "evicted before after = filter (\<lambda>p. p \<notin> set after) before"

fun send_frames :: "client \<Rightarrow> (string \<times> real \<times> bool) list \<Rightarrow> client" where
  "send_frames s [] = s"
| "send_frames s ((frame_data, send_time, send_returns) # calls) =
     send_frames (fst (snd (send_frame s frame_data send_time send_returns))) calls"

text \<open>
  A client that is connected and authenticated, has sent frames 1 to 1000 and has had
  none of them acknowledged.
\<close>

definition full_client :: client where
  "full_client = (init ''wss://host'' ''key'' 10 70)
     \<lparr>websocket := Some 1, is_authenticated := True, frame_count := 1000,
      send_times := map (\<lambda>i. (i, 0)) [1..1000]\<rparr>"

text \<open>
  \<open>frame_num in self.send_times\<close>, for what \<open>data.get("frame_number")\<close> gave.
\<close>

definition in_send_times :: "client \<Rightarrow> int option \<Rightarrow> bool" where
  "in_send_times s frame_num =
     (case frame_num of None \<Rightarrow> False | Some k \<Rightarrow> map_of (send_times s) k \<noteq> None)"

text \<open>
  Concrete clients and messages: a client whose \<open>connect\<close> succeeded at clock reading
  100; an acknowledgement of frame \<open>n\<close> reporting backlog \<open>b\<close>; a streaming client
  with frame 5 pending and 50 latency samples.
\<close>

definition connected_client :: client where
  "connected_client = fst (snd (connect (init ''wss://host'' ''key'' 10 70) (Some 1) 100))"

definition blank :: message where
  "blank = \<lparr> f_type = None, f_frame_number = None, f_total_frames = None, f_message = None,
             f_reason = None, f_frames_processed = None, f_result = None \<rparr>"

definition ack :: "int \<Rightarrow> int \<Rightarrow> message" where
  "ack n b = blank\<lparr>f_type := Some ''frame_received'', f_frame_number := Some n,
                     f_total_frames := Some b\<rparr>"

definition saturated_client :: client where
  "saturated_client = (init ''wss://host'' ''key'' 10 70)
     \<lparr>websocket := Some 1, is_authenticated := True, is_streaming := True, frame_count := 5,
      connection_start := Some 100, send_times := [(5, 2)], ack_times := replicate 50 0\<rparr>"


text \<open>
  The frame numbers handed to \<open>websocket.send\<close>, in order; the iterations of the
  producer in which \<open>send_frame\<close> is called (nothing escaped the capture, and the
  captured text is not empty); a streaming client that has sent nothing; a producer
  iteration with the given capture and outcome of \<open>websocket.send\<close>.
\<close>

fun frame_numbers :: "effect list \<Rightarrow> int list" where
  "frame_numbers [] = []"
| "frame_numbers (WsSend (Frame n frame_data send_time) # fx) = n # frame_numbers fx"
| "frame_numbers (x # fx) = frame_numbers fx"

definition calls_send :: "client \<Rightarrow> producer_env \<Rightarrow> bool" where
  "calls_send s e =
     (p_fault e \<noteq> Some AtCapture \<and>
      (case fst (capture_frame s (p_grabbed e)) of None \<Rightarrow> False | Some text \<Rightarrow> text \<noteq> []))"

definition ready_client :: client where
  "ready_client = (init ''wss://host'' ''key'' 10 70)
     \<lparr>websocket := Some 1, is_authenticated := True, is_streaming := True,
      connection_start := Some 100, camera := Some 0\<rparr>"

definition grab :: "grab_result \<Rightarrow> bool \<Rightarrow> producer_env" where
  "grab g ok = \<lparr> p_grabbed = g, p_send_time = 101, p_send_returns = ok, p_now = 101,
                 p_after_sleep = 102, p_fault = None \<rparr>"

text \<open>A server push that carries only its \<open>type\<close>.\<close>

definition push :: "string \<Rightarrow> message" where
  "push ty = blank\<lparr>f_type := Some ty\<rparr>"

section \<open>Properties\<close>

subsection \<open>The pending sends stay bounded\<close>

lemma fold_delete_filter:
  "fold AList.delete ks d = filter (\<lambda>p. fst p \<notin> set ks) d"
proof (induction ks arbitrary: d)
  case Nil
  then show ?case by simp
next
  case (Cons k ks)
  have "fold AList.delete (k # ks) d = filter (\<lambda>p. fst p \<notin> set ks) (AList.delete k d)"
    using Cons.IH by simp
  also have "\<dots> = filter (\<lambda>p. fst p \<notin> set (k # ks)) d"
    by (auto simp: AList.delete_eq intro: filter_cong)
  finally show ?case .
qed

lemma length_filter_notin:
  assumes "distinct xs" "distinct ks" "set ks \<subseteq> set xs"
  shows "length (filter (\<lambda>k. k \<notin> set ks) xs) = length xs - length ks"
proof -
  let ?ys = "filter (\<lambda>k. k \<notin> set ks) xs"
  have "distinct ?ys" using assms(1) by simp
  then have "length ?ys = card (set ?ys)" by (rule distinct_card[symmetric])
  also have "set ?ys = set xs - set ks" by auto
  also have "card (set xs - set ks) = card (set xs) - card (set ks)"
    using assms(3) by (intro card_Diff_subset) auto
  also have "card (set xs) = length xs" using assms(1) by (rule distinct_card)
  also have "card (set ks) = length ks" using assms(2) by (rule distinct_card)
  finally show ?thesis .
qed

lemma length_filter_out_keys:
  assumes "distinct (map fst d)" "distinct ks" "set ks \<subseteq> fst ` set d"
  shows "length (filter (\<lambda>p. fst p \<notin> set ks) d) = length d - length ks"
proof -
  have "length (filter (\<lambda>p. fst p \<notin> set ks) d) = length (filter (\<lambda>k. k \<notin> set ks) (map fst d))"
    by (simp add: filter_map comp_def)
  also have "\<dots> = length (map fst d) - length ks"
    using assms by (intro length_filter_notin) auto
  finally show ?thesis by simp
qed

lemma old_keys_facts:
  assumes "distinct (map fst d)"
  shows "distinct (old_keys d)" "set (old_keys d) \<subseteq> fst ` set d"
    "length (old_keys d) = length d - 1000"
proof -
  show "distinct (old_keys d)" using assms by (simp add: old_keys_def)
  show "set (old_keys d) \<subseteq> fst ` set d"
    using set_take_subset[of "length d - 1000" "sort (map fst d)"] by (auto simp: old_keys_def)
  show "length (old_keys d) = length d - 1000" by (simp add: old_keys_def)
qed

lemma sorted_take_le_drop:
  assumes "sorted xs" "a \<in> set (take m xs)" "b \<in> set (drop m xs)"
  shows "a \<le> b"
proof -
  have "sorted (take m xs @ drop m xs)" using assms(1) by simp
  then show ?thesis using assms(2,3) unfolding sorted_append by blast
qed

lemma old_keys_below_kept:
  assumes "a \<in> set (old_keys d)" "b \<in> fst ` set d" "b \<notin> set (old_keys d)"
  shows "a < b"
proof -
  let ?xs = "sort (map fst d)" and ?m = "length d - 1000"
  have "b \<in> set ?xs" using assms(2) by simp
  then have "b \<in> set (take ?m ?xs) \<union> set (drop ?m ?xs)"
    by (metis append_take_drop_id set_append)
  then have "b \<in> set (drop ?m ?xs)" using assms(3) by (simp add: old_keys_def)
  moreover have "a \<in> set (take ?m ?xs)" using assms(1) by (simp add: old_keys_def)
  ultimately have "a \<le> b" using sorted_take_le_drop[of ?xs a ?m b] by simp
  moreover have "a \<noteq> b" using assms(1,3) by auto
  ultimately show ?thesis by simp
qed


lemma old_keys_empty: "length d \<le> 1000 \<Longrightarrow> old_keys d = []"
  by (simp add: old_keys_def)

lemma send_frame_accepted:
  assumes "websocket s \<noteq> None" "is_authenticated s"
  shows "send_times (fst (snd (send_frame s fd t r))) =
         filter (\<lambda>q. fst q \<notin> set (old_keys (AList.update (frame_count s + 1) t (send_times s))))
           (AList.update (frame_count s + 1) t (send_times s))"
    and "frame_count (fst (snd (send_frame s fd t r))) = frame_count s + 1"
  using assms by (auto simp add: send_frame_def Let_def fold_delete_filter old_keys_empty)

lemma send_frame_rejected:
  "websocket s = None \<or> \<not> is_authenticated s \<Longrightarrow> send_frame s fd t r = (False, s, [])"
  by (simp add: send_frame_def)

lemma kept_after_trim:
  assumes "distinct (map fst d)"
  shows "distinct (map fst (filter (\<lambda>q. fst q \<notin> set (old_keys d)) d))"
    and "length (filter (\<lambda>q. fst q \<notin> set (old_keys d)) d) = min (length d) 1000"
proof -
  show "distinct (map fst (filter (\<lambda>q. fst q \<notin> set (old_keys d)) d))"
    using assms by (simp add: distinct_map_filter)
  have "length (filter (\<lambda>q. fst q \<notin> set (old_keys d)) d) = length d - length (old_keys d)"
    using assms old_keys_facts[OF assms] by (intro length_filter_out_keys) auto
  then show "length (filter (\<lambda>q. fst q \<notin> set (old_keys d)) d) = min (length d) 1000"
    using old_keys_facts(3)[OF assms] by simp
qed

lemma send_frame_keeps_dict:
  assumes "distinct (map fst (send_times s))" "length (send_times s) \<le> 1000"
  shows "distinct (map fst (send_times (fst (snd (send_frame s fd t r)))))"
    and "length (send_times (fst (snd (send_frame s fd t r)))) \<le> 1000"
proof -
  let ?p = "AList.update (frame_count s + 1) t (send_times s)"
  have dp: "distinct (map fst ?p)" using assms(1) by (rule distinct_update)
  show "distinct (map fst (send_times (fst (snd (send_frame s fd t r)))))"
  proof (cases "websocket s \<noteq> None \<and> is_authenticated s")
    case True
    then show ?thesis using kept_after_trim(1)[OF dp] by (simp add: send_frame_accepted)
  next
    case False
    then show ?thesis using assms(1) by (simp add: send_frame_rejected)
  qed
  show "length (send_times (fst (snd (send_frame s fd t r)))) \<le> 1000"
  proof (cases "websocket s \<noteq> None \<and> is_authenticated s")
    case True
    then show ?thesis using kept_after_trim(2)[OF dp] by (simp add: send_frame_accepted)
  next
    case False
    then show ?thesis using assms(2) by (simp add: send_frame_rejected)
  qed
qed

lemma send_frames_keeps_dict:
  assumes "distinct (map fst (send_times s))" "length (send_times s) \<le> 1000"
  shows "distinct (map fst (send_times (send_frames s calls))) \<and>
         length (send_times (send_frames s calls)) \<le> 1000"
  using assms
proof (induction calls arbitrary: s)
  case Nil
  then show ?case by simp
next
  case (Cons c calls)
  obtain fd t r where c: "c = (fd, t, r)" by (cases c) auto
  show ?case unfolding c send_frames.simps
    by (rule Cons.IH) (rule send_frame_keeps_dict[OF Cons.prems])+
qed

lemma evicted_after_trim:
  assumes "distinct (map fst d)"
  shows "evicted d (filter (\<lambda>q. fst q \<notin> set (old_keys d)) d) = filter (\<lambda>q. fst q \<in> set (old_keys d)) d"
  unfolding evicted_def by (rule filter_cong) auto

lemma length_evicted_after_trim:
  assumes "distinct (map fst d)"
  shows "length (evicted d (filter (\<lambda>q. fst q \<notin> set (old_keys d)) d)) = length d - 1000"
proof -
  let ?kept = "filter (\<lambda>q. fst q \<notin> set (old_keys d)) d"
  have "length (filter (\<lambda>q. fst q \<in> set (old_keys d)) d) + length ?kept = length d"
    by (rule sum_length_filter_compl)
  then show ?thesis
    using kept_after_trim(2)[OF assms] by (simp add: evicted_after_trim[OF assms])
qed

text \<open>
  C1. After every sequence of \<open>send_frame\<close> calls, and after one more call, \<open>send_times\<close>
  holds at most 1000 entries. When that call passes its guard, the entries it removes
  from the dict (with the new entry inserted) are as many as exceed 1000, the others
  stay in order, and every removed sequence number is smaller than every one that stays.
\<close>

theorem send_times_bounded:
  assumes "distinct (map fst (send_times s))" and "length (send_times s) \<le> 1000"
  shows "let s1 = send_frames s calls;
             pending = AList.update (frame_count s1 + 1) t (send_times s1);
             s2 = fst (snd (send_frame s1 fd t r));
             out = evicted pending (send_times s2)
         in length (send_times s1) \<le> 1000 \<and> length (send_times s2) \<le> 1000 \<and>
            (websocket s1 \<noteq> None \<and> is_authenticated s1 \<longrightarrow>
               send_times s2 = filter (\<lambda>p. p \<notin> set out) pending \<and>
               length out = length pending - 1000 \<and>
               (\<forall>e \<in> set out. \<forall>k \<in> set (send_times s2). fst e < fst k))"
proof -
  define s1 where "s1 = send_frames s calls"
  define pending where "pending = AList.update (frame_count s1 + 1) t (send_times s1)"
  define s2 where "s2 = fst (snd (send_frame s1 fd t r))"
  define out where "out = evicted pending (send_times s2)"
  have inv1: "distinct (map fst (send_times s1))" "length (send_times s1) \<le> 1000"
    using send_frames_keeps_dict[OF assms, of calls] by (simp_all add: s1_def)
  have len2: "length (send_times s2) \<le> 1000"
    unfolding s2_def by (rule send_frame_keeps_dict(2)[OF inv1])
  have dp: "distinct (map fst pending)"
    unfolding pending_def using inv1(1) by (rule distinct_update)
  have acc: "send_times s2 = filter (\<lambda>p. p \<notin> set out) pending \<and>
             length out = length pending - 1000 \<and>
             (\<forall>e \<in> set out. \<forall>k \<in> set (send_times s2). fst e < fst k)"
    if ready: "websocket s1 \<noteq> None" "is_authenticated s1"
  proof -
    have kept: "send_times s2 = filter (\<lambda>q. fst q \<notin> set (old_keys pending)) pending"
      unfolding s2_def pending_def by (rule send_frame_accepted(1)[OF ready])
    have out: "out = filter (\<lambda>q. fst q \<in> set (old_keys pending)) pending"
      unfolding out_def kept by (rule evicted_after_trim[OF dp])
    have a: "send_times s2 = filter (\<lambda>p. p \<notin> set out) pending"
      unfolding kept out by (rule filter_cong) auto
    have b: "length out = length pending - 1000"
      unfolding out_def kept by (rule length_evicted_after_trim[OF dp])
    have c: "fst e < fst k" if "e \<in> set out" "k \<in> set (send_times s2)" for e k
    proof (rule old_keys_below_kept)
      show "fst e \<in> set (old_keys pending)" using that(1) by (simp add: out)
      show "fst k \<in> fst ` set pending" using that(2) by (auto simp: kept)
      show "fst k \<notin> set (old_keys pending)" using that(2) by (simp add: kept)
    qed
    show ?thesis using a b c by blast
  qed
  show ?thesis
    using inv1(2) len2 acc
    unfolding Let_def s1_def[symmetric] pending_def[symmetric] s2_def[symmetric] out_def[symmetric]
    by blast
qed

lemma full_client_fields:
  "websocket full_client = Some 1" "is_authenticated full_client"
  "frame_count full_client = 1000" "send_times full_client = map (\<lambda>i. (i, 0)) [1..1000]"
  by (simp_all add: full_client_def init_def)

theorem send_times_bounded_witness:
  "distinct (map fst (send_times full_client)) \<and> length (send_times full_client) \<le> 1000 \<and>
   websocket full_client \<noteq> None \<and> is_authenticated full_client \<and>
   length (send_times (fst (snd (send_frame full_client ''f'' 7 True)))) \<le> 1000 \<and>
   length (evicted (AList.update 1001 7 (send_times full_client))
             (send_times (fst (snd (send_frame full_client ''f'' 7 True))))) = 1"
proof -
  have d: "distinct (map fst (send_times full_client))"
    by (simp add: full_client_fields comp_def)
  have l: "length (send_times full_client) \<le> 1000"
    by (simp add: full_client_fields)
  have "map fst (AList.update 1001 7 (send_times full_client)) = [1..1000] @ [1001]"
    by (simp add: update_keys full_client_fields comp_def)
  then have "length (map fst (AList.update 1001 7 (send_times full_client))) = 1001"
    by simp
  then have n: "length (AList.update 1001 7 (send_times full_client)) = 1001"
    by simp
  show ?thesis
    using send_times_bounded[OF d l, where calls = "[]" and t = 7 and fd = "''f''" and r = True] d l n
    by (simp add: Let_def full_client_fields(1,2,3))
qed

subsection \<open>The latency samples stay bounded\<close>

lemma calculate_ack_latency_acks:
  assumes "length (ack_times s) \<le> 50"
  shows "length (ack_times (snd (calculate_ack_latency s frame_num t))) \<le> 50 \<and>
         (ack_times (snd (calculate_ack_latency s frame_num t)) = ack_times s \<or>
          (\<exists>lat. ack_times (snd (calculate_ack_latency s frame_num t)) =
             (if length (ack_times s) < 50 then ack_times s else tl (ack_times s)) @ [lat]))"
proof (cases "in_send_times s frame_num")
  case False
  then have "calculate_ack_latency s frame_num t = (None, s)"
    by (auto simp: calculate_ack_latency_def in_send_times_def split: option.splits)
  then show ?thesis using assms by simp
next
  case True
  then obtain k sent where k: "frame_num = Some k" "map_of (send_times s) k = Some sent"
    by (auto simp: in_send_times_def split: option.splits)
  let ?lat = "(t - sent) * 1000"
  have eq: "ack_times (snd (calculate_ack_latency s frame_num t)) =
        (if length (ack_times s @ [?lat]) > 50 then tl (ack_times s @ [?lat]) else ack_times s @ [?lat])"
    by (simp add: calculate_ack_latency_def k Let_def)
  show ?thesis
  proof (cases "length (ack_times s) < 50")
    case True
    then show ?thesis unfolding eq by simp
  next
    case False
    then have full: "length (ack_times s) = 50" using assms by simp
    then have ne: "ack_times s \<noteq> []" by auto
    show ?thesis unfolding eq using full ne by simp
  qed
qed

lemma on_frame_received_acks:
  "ack_times (fst (snd (on_frame_received s data t))) = ack_times (snd (calculate_ack_latency s (f_frame_number data) t))"
  by (simp add: on_frame_received_def Let_def split: option.splits)

lemma dispatch_acks:
  "ack_times (fst (snd (dispatch s data t))) = ack_times s \<or>
   (f_type data = Some ''frame_received'' \<and>
    ack_times (fst (snd (dispatch s data t))) = ack_times (snd (calculate_ack_latency s (f_frame_number data) t)))"
  by (simp add: dispatch_def Let_def on_frame_received_acks split: sum.splits)

lemma consumer_iteration_acks:
  "ack_times (fst (snd (consumer_iteration s ev))) = ack_times s \<or>
   (\<exists>data t. ev = Msg data t \<and> f_type data = Some ''frame_received'' \<and>
      ack_times (fst (snd (consumer_iteration s ev))) = ack_times (snd (calculate_ack_latency s (f_frame_number data) t)))"
  using dispatch_acks by (cases ev) (simp_all add: consumer_iteration_def)

lemma consumer_iteration_bound:
  assumes "length (ack_times s) \<le> 50"
  shows "length (ack_times (fst (snd (consumer_iteration s ev)))) \<le> 50"
  using consumer_iteration_acks[of s ev] calculate_ack_latency_acks[OF assms] assms by auto

lemma handle_messages_bound:
  assumes "length (ack_times s) \<le> 50"
  shows "length (ack_times (fst (snd (handle_messages s evs)))) \<le> 50"
  using assms
proof (induction evs arbitrary: s)
  case Nil
  then show ?case by simp
next
  case (Cons ev evs)
  obtain fl s' fx where it: "consumer_iteration s ev = (fl, s', fx)"
    by (cases "consumer_iteration s ev") auto
  have s': "length (ack_times s') \<le> 50"
    using consumer_iteration_bound[OF Cons.prems, of ev] by (simp add: it)
  show ?case
  proof (cases "is_streaming s \<and> websocket s \<noteq> None")
    case False
    then show ?thesis using Cons.prems by auto
  next
    case True
    show ?thesis
    proof (cases fl)
      case Continue
      then show ?thesis using True it Cons.IH[OF s'] by (auto simp: prepend_def split: prod.splits)
    next
      case Break
      then show ?thesis using True it s' by auto
    next
      case (Raise e)
      then show ?thesis using True it s' by auto
    qed
  qed
qed

text \<open>
  C5. From a client with at most 50 latency samples, after the consumer loop has
  processed any sequence of inbound events, and after one more event, \<open>ack_times\<close>
  holds at most 50 samples. That event leaves \<open>ack_times\<close> as it was or appends one
  latency at the tail; when 50 samples were held, the one removed is the head.
\<close>

theorem ack_times_bounded:
  assumes "length (ack_times s) \<le> 50"
  shows "let s1 = fst (snd (handle_messages s evs));
             s2 = fst (snd (consumer_iteration s1 ev))
         in length (ack_times s1) \<le> 50 \<and> length (ack_times s2) \<le> 50 \<and>
            (ack_times s2 = ack_times s1 \<or>
             (\<exists>lat. ack_times s2 =
                (if length (ack_times s1) < 50 then ack_times s1 else tl (ack_times s1)) @ [lat]))"
proof -
  define s1 where "s1 = fst (snd (handle_messages s evs))"
  have b1: "length (ack_times s1) \<le> 50"
    unfolding s1_def by (rule handle_messages_bound[OF assms])
  have b2: "length (ack_times (fst (snd (consumer_iteration s1 ev)))) \<le> 50"
    by (rule consumer_iteration_bound[OF b1])
  have step: "ack_times (fst (snd (consumer_iteration s1 ev))) = ack_times s1 \<or>
     (\<exists>lat. ack_times (fst (snd (consumer_iteration s1 ev))) =
        (if length (ack_times s1) < 50 then ack_times s1 else tl (ack_times s1)) @ [lat])"
    using consumer_iteration_acks[of s1 ev] calculate_ack_latency_acks[OF b1] by metis
  show ?thesis
    unfolding Let_def s1_def[symmetric] using b1 b2 step by blast
qed

lemma saturated_client_fields:
  "websocket saturated_client = Some 1" "is_streaming saturated_client"
  "send_times saturated_client = [(5, 2)]" "ack_times saturated_client = replicate 50 0"
  by (simp_all add: saturated_client_def init_def)

lemma ack_fields:
  "f_type (ack n b) = Some ''frame_received''" "f_frame_number (ack n b) = Some n"
  "f_total_frames (ack n b) = Some b"
  by (simp_all add: ack_def blank_def)

theorem ack_times_bounded_witness:
  "length (ack_times saturated_client) \<le> 50 \<and>
   length (ack_times (fst (snd (consumer_iteration
      (fst (snd (handle_messages saturated_client [RecvTimeout]))) (Msg (ack 5 3) 3))))) \<le> 50 \<and>
   ack_times (fst (snd (consumer_iteration
      (fst (snd (handle_messages saturated_client [RecvTimeout]))) (Msg (ack 5 3) 3)))) =
     replicate 49 0 @ [1000]"
proof -
  have h: "length (ack_times saturated_client) \<le> 50"
    by (simp add: saturated_client_fields)
  have run: "fst (snd (handle_messages saturated_client [RecvTimeout])) = saturated_client"
    by (simp add: saturated_client_fields consumer_iteration_def prepend_def)
  have step: "ack_times (fst (snd (consumer_iteration saturated_client (Msg (ack 5 3) 3)))) =
      replicate 49 0 @ [1000]"
    by (simp add: consumer_iteration_def dispatch_def on_frame_received_def calculate_ack_latency_def
          Let_def ack_fields saturated_client_fields)
  have "length (ack_times (fst (snd (consumer_iteration saturated_client (Msg (ack 5 3) 3))))) \<le> 50"
    using ack_times_bounded[OF h, of "[RecvTimeout]" "Msg (ack 5 3) 3"]
    unfolding Let_def run by blast
  then show ?thesis
    unfolding run using h step by blast
qed

subsection \<open>Acknowledgement of a frame that is not pending\<close>

text \<open>
  C9. A \<open>frame_received\<close> message whose \<open>frame_number\<close> is not a key of \<open>send_times\<close>
  computes no latency and leaves \<open>ack_times\<close> (and \<open>send_times\<close>) unchanged.
\<close>

theorem ack_unknown_frame:
  assumes "f_type data = Some ''frame_received''"
    and "\<not> in_send_times s (f_frame_number data)"
  shows "calculate_ack_latency s (f_frame_number data) t = (None, s) \<and>
         ack_times (fst (snd (consumer_iteration s (Msg data t)))) = ack_times s \<and>
         send_times (fst (snd (consumer_iteration s (Msg data t)))) = send_times s"
proof -
  have r: "calculate_ack_latency s (f_frame_number data) t = (None, s)"
    using assms(2) by (auto simp: calculate_ack_latency_def in_send_times_def split: option.splits)
  show ?thesis
    using r assms(1)
    by (auto simp add: consumer_iteration_def dispatch_def on_frame_received_def Let_def
             split: option.splits)
qed

theorem ack_unknown_frame_witness:
  "f_type (ack 9 3) = Some ''frame_received'' \<and>
   \<not> in_send_times saturated_client (f_frame_number (ack 9 3)) \<and>
   calculate_ack_latency saturated_client (Some 9) 7 = (None, saturated_client) \<and>
   ack_times (fst (snd (consumer_iteration saturated_client (Msg (ack 9 3) 7)))) = replicate 50 0"
proof -
  have a: "f_type (ack 9 3) = Some ''frame_received''" by (simp add: ack_fields)
  have b: "\<not> in_send_times saturated_client (f_frame_number (ack 9 3))"
    by (simp add: in_send_times_def ack_fields saturated_client_fields)
  show ?thesis
    using ack_unknown_frame[OF a b, of 7] a b by (simp add: ack_fields saturated_client_fields)
qed

subsection \<open>send\_frame before the client is ready\<close>

text \<open>
  C10. With no websocket, or before authentication succeeded, \<open>send_frame\<close> returns
  \<open>False\<close>, leaves the client unchanged (\<open>frame_count\<close> and \<open>send_times\<close> included) and
  calls nothing.
\<close>

theorem send_frame_not_ready:
  assumes "websocket s = None \<or> \<not> is_authenticated s"
  shows "send_frame s frame_data send_time send_returns = (False, s, [])"
  using assms unfolding send_frame_def by simp

theorem send_frame_not_ready_witness:
  "websocket (init ''wss://host'' ''key'' 10 70) = None \<and>
   send_frame (init ''wss://host'' ''key'' 10 70) ''f'' 1 True =
     (False, init ''wss://host'' ''key'' 10 70, [])"
proof -
  have h: "websocket (init ''wss://host'' ''key'' 10 70) = None" by (simp add: init_def)
  show ?thesis
    using send_frame_not_ready[of "init ''wss://host'' ''key'' 10 70" "''f''" 1 True] h by simp
qed

subsection \<open>disconnect\<close>

lemma disconnect_state:
  "fst (snd (disconnect s now)) = s\<lparr>is_streaming := False, camera := None, websocket := None\<rparr>"
  by (simp add: disconnect_def Let_def split: option.splits prod.splits)

lemma disconnect_twice_state:
  "fst (snd (disconnect (fst (snd (disconnect s t1))) t2)) = fst (snd (disconnect s t1))"
  by (simp add: disconnect_state)

lemma disconnect_effects_closed:
  assumes "camera s = None" "websocket s = None"
  shows "CameraRelease \<notin> set (snd (snd (disconnect s now)))"
    and "WsClose \<notin> set (snd (snd (disconnect s now)))"
  using assms by (simp_all add: disconnect_def Let_def split: option.splits)

lemma disconnect_second_releases_nothing:
  "CameraRelease \<notin> set (snd (snd (disconnect (fst (snd (disconnect s t1))) t2))) \<and>
   WsClose \<notin> set (snd (snd (disconnect (fst (snd (disconnect s t1))) t2)))"
  by (intro conjI disconnect_effects_closed) (simp_all add: disconnect_state)

lemma disconnect_returns:
  assumes "connection_start s = None \<or> connection_start s \<noteq> Some now"
  shows "fst (disconnect s now) = None"
  using assms by (auto simp add: disconnect_def Let_def split: option.splits prod.splits)

text \<open>
  C3. The average rate \<open>frame_count / duration\<close> is computed with no test of
  \<open>duration\<close>: when \<open>disconnect\<close> reads the clock value that \<open>connect\<close> recorded, the
  division raises \<open>ZeroDivisionError\<close> and the exception leaves \<open>disconnect\<close>.
\<close>

theorem disconnect_zero_length_session:
  "connection_start connected_client = Some 100 \<and>
   fst (disconnect connected_client 100) = Some ZeroDivisionError"
  by (simp add: connected_client_def connect_def init_def disconnect_def Let_def)

text \<open>
  C7. Two calls of \<open>disconnect\<close> in a row on a session of length zero: each of them
  raises \<open>ZeroDivisionError\<close>. On a client that never connected the call returns. (The
  lemmas above give the rest for every client: the second call leaves the state of the
  first, and neither releases the camera nor closes the websocket again.)
\<close>

theorem disconnect_twice_zero_length_session:
  "fst (disconnect connected_client 100) = Some ZeroDivisionError \<and>
   fst (disconnect (fst (snd (disconnect connected_client 100))) 100) = Some ZeroDivisionError \<and>
   fst (disconnect (init ''wss://host'' ''key'' 10 70) 100) = None"
  by (simp add: connected_client_def connect_def init_def disconnect_def Let_def)

subsection \<open>Authentication times out\<close>


lemma auth_loop_returns:
  assumes "\<exists>(now, r) \<in> set iters. 10 \<le> now - start_time"
  shows "auth_loop s start_time iters \<noteq> None"
  using assms
proof (induction iters)
  case Nil
  then show ?case by simp
next
  case (Cons it iters)
  obtain now r where it: "it = (now, r)" by (cases it) auto
  show ?case
  proof (cases "now - start_time < 10")
    case False
    then show ?thesis by (simp add: it)
  next
    case True
    then have "auth_loop s start_time iters \<noteq> None" using Cons by (auto simp: it)
    then show ?thesis using True by (cases r) (auto simp: it split: option.splits)
  qed
qed




subsection \<open>Frame numbers\<close>

lemma frame_numbers_append: "frame_numbers (fx @ fx') = frame_numbers fx @ frame_numbers fx'"
  by (induction fx rule: frame_numbers.induct) simp_all

lemma send_frame_number:
  assumes "websocket s \<noteq> None" "is_authenticated s"
  shows "frame_numbers (snd (snd (send_frame s fd t r))) = [frame_count s + 1]"
  using assms by (auto simp: send_frame_def Let_def)

lemma send_frame_same:
  "websocket (fst (snd (send_frame s fd t r))) = websocket s"
  "is_authenticated (fst (snd (send_frame s fd t r))) = is_authenticated s"
  "is_streaming (fst (snd (send_frame s fd t r))) = is_streaming s"
  "camera (fst (snd (send_frame s fd t r))) = camera s"
  by (simp_all add: send_frame_def Let_def)

lemma send_frame_result:
  assumes "send_frame s fd t r = (ok, a, b)"
  shows "websocket a = websocket s" "is_authenticated a = is_authenticated s"
    "is_streaming a = is_streaming s" "camera a = camera s"
    "websocket s \<noteq> None \<Longrightarrow> is_authenticated s \<Longrightarrow> frame_count a = frame_count s + 1"
    "websocket s \<noteq> None \<Longrightarrow> is_authenticated s \<Longrightarrow> frame_numbers b = [frame_count s + 1]"
  using send_frame_same[of s fd t r] send_frame_accepted(2)[of s fd t r]
        send_frame_number[of s fd t r]
  by (simp_all add: assms)

lemma capture_frame_numbers: "frame_numbers (snd (capture_frame s g)) = []"
  by (simp add: capture_frame_def split: grab_result.splits)

lemma producer_iteration_same:
  "websocket (fst (producer_iteration iv s prev e)) = websocket s"
  "is_authenticated (fst (producer_iteration iv s prev e)) = is_authenticated s"
  "is_streaming (fst (producer_iteration iv s prev e)) = is_streaming s"
  "camera (fst (producer_iteration iv s prev e)) = camera s"
  by (auto simp: producer_iteration_def Let_def split: option.splits prod.splits
           dest: send_frame_result(1,2,3,4))

lemma producer_iteration_count:
  assumes "websocket s \<noteq> None" "is_authenticated s"
  shows "frame_count (fst (producer_iteration iv s prev e)) =
           frame_count s + (if calls_send s e then 1 else 0)"
    and "frame_numbers (snd (snd (producer_iteration iv s prev e))) =
           (if calls_send s e then [frame_count s + 1] else [])"
  by (simp_all add: producer_iteration_def calls_send_def Let_def split_beta frame_numbers_append
        send_frame_number[OF assms] send_frame_accepted(2)[OF assms] capture_frame_numbers
        split: option.splits)

lemma calls_send_cong: "camera s' = camera s \<Longrightarrow> calls_send s' = calls_send s"
  by (auto simp: calls_send_def capture_frame_def fun_eq_iff)

lemma upto_step: "[a + 1 .. a + (1 + n)] = (a + 1) # [a + 1 + 1 .. a + 1 + n]" if "0 \<le> n" for a n :: int
  using that by (simp add: upto_rec1 add.assoc)

lemma ready_client_fields:
  "websocket ready_client = Some 1" "is_authenticated ready_client" "is_streaming ready_client"
  "camera ready_client = Some 0" "frame_count ready_client = 0" "send_times ready_client = []"
  "ack_times ready_client = []"
  by (simp_all add: ready_client_def init_def)

text \<open>
  C2, as the claim states it, fails: a call of \<open>send_frame\<close> whose \<open>websocket.send\<close>
  raises returns \<open>False\<close> and has incremented \<open>frame_count\<close> from 0 to 1, and the next
  frame, which is transmitted, carries number 2.
\<close>

theorem failed_send_counts:
  "fst (send_frame ready_client ''f'' 101 False) = False \<and>
   frame_count ready_client = 0 \<and>
   frame_count (fst (snd (send_frame ready_client ''f'' 101 False))) = 1 \<and>
   send_frame (fst (snd (send_frame ready_client ''f'' 101 False))) ''g'' 102 True =
     (True, ready_client\<lparr>frame_count := 2, send_times := [(1, 101), (2, 102)]\<rparr>,
      [WsSend (Frame 2 ''g'' 102)])"
  by (simp add: send_frame_def Let_def ready_client_fields)

text \<open>
  C2, amended. While the client is connected and authenticated, the producer loop
  increments \<open>frame_count\<close> once for each iteration that calls \<open>send_frame\<close>, whether
  or not the transmission succeeds, and the numbers it hands to \<open>websocket.send\<close> are
  the consecutive integers after the starting \<open>frame_count\<close> (from 1 for a new
  client); an iteration whose capture fails takes no number.
\<close>

theorem frame_numbers_consecutive:
  assumes "websocket s \<noteq> None" "is_authenticated s" "is_streaming s"
  shows "frame_count (fst (snd (stream_loop iv s prev envs))) =
           frame_count s + int (length (filter (calls_send s) envs)) \<and>
         frame_numbers (snd (snd (stream_loop iv s prev envs))) =
           [frame_count s + 1 .. frame_count s + int (length (filter (calls_send s) envs))]"
  using assms
proof (induction envs arbitrary: s prev)
  case Nil
  then show ?case by simp
next
  case (Cons e envs)
  obtain s' prev' fx where it: "producer_iteration iv s prev e = (s', prev', fx)"
    by (cases "producer_iteration iv s prev e") auto
  have same: "websocket s' \<noteq> None" "is_authenticated s'" "is_streaming s'" "camera s' = camera s"
    using producer_iteration_same[of iv s prev e] Cons.prems by (simp_all add: it)
  have cnt: "frame_count s' = frame_count s + (if calls_send s e then 1 else 0)"
    "frame_numbers fx = (if calls_send s e then [frame_count s + 1] else [])"
    using producer_iteration_count[OF Cons.prems(1,2), of iv prev e] by (simp_all add: it)
  have cs: "calls_send s' = calls_send s" using same(4) by (rule calls_send_cong)
  note IH = Cons.IH[OF same(1,2,3), of prev', unfolded cs]
  obtain st s'' fx' where rest: "stream_loop iv s' prev' envs = (st, s'', fx')"
    by (cases "stream_loop iv s' prev' envs") auto
  have whole: "stream_loop iv s prev (e # envs) = (st, s'', fx @ fx')"
    using Cons.prems(3) by (simp add: it rest prepend_def)
  let ?n = "int (length (filter (calls_send s) envs))"
  have a: "frame_count s'' = frame_count s' + ?n"
    and b: "frame_numbers fx' = [frame_count s' + 1 .. frame_count s' + ?n]"
    using IH by (simp_all add: rest)
  show ?case
  proof (cases "calls_send s e")
    case True
    then show ?thesis
      unfolding whole using a b cnt upto_step[of ?n "frame_count s"]
      by (simp add: frame_numbers_append add.assoc)
  next
    case False
    then show ?thesis unfolding whole using a b cnt by (simp add: frame_numbers_append)
  qed
qed

theorem frame_numbers_consecutive_witness:
  "websocket ready_client \<noteq> None \<and> is_authenticated ready_client \<and> is_streaming ready_client \<and>
   frame_count (fst (snd (stream_loop (1 / 10) ready_client 100
      [grab (Grabbed ''a'') True, grab ReadFailed True, grab (Grabbed ''b'') False, grab (Grabbed ''c'') True]))) = 3 \<and>
   frame_numbers (snd (snd (stream_loop (1 / 10) ready_client 100
      [grab (Grabbed ''a'') True, grab ReadFailed True, grab (Grabbed ''b'') False, grab (Grabbed ''c'') True]))) =
     [1, 2, 3]"
proof -
  have h: "websocket ready_client \<noteq> None" "is_authenticated ready_client" "is_streaming ready_client"
    by (simp_all add: ready_client_fields)
  have n: "length (filter (calls_send ready_client)
      [grab (Grabbed ''a'') True, grab ReadFailed True, grab (Grabbed ''b'') False, grab (Grabbed ''c'') True]) = 3"
    by (simp add: calls_send_def capture_frame_def grab_def ready_client_fields)
  have u: "[0 + 1 .. 0 + int 3] = [1, 2, 3]" by (simp add: upto_rec1)
  show ?thesis
    using frame_numbers_consecutive[OF h, of "1 / 10" 100
      "[grab (Grabbed ''a'') True, grab ReadFailed True, grab (Grabbed ''b'') False, grab (Grabbed ''c'') True]"]
      h u
    unfolding n ready_client_fields(5) by simp
qed

subsection \<open>Faults inside the loops\<close>

lemma producer_iteration_fault:
  assumes "p_fault e \<noteq> None"
  shows "\<exists>s' fx. producer_iteration iv s prev e =
           (s', prev, fx @ [Log ERROR ''Streaming error'', Sleep (1 / 10)])"
proof (cases "p_fault e")
  case None
  then show ?thesis using assms by simp
next
  case (Some pt)
  then show ?thesis
    by (cases pt) (auto simp: producer_iteration_def Let_def split: option.splits prod.splits)
qed

lemma stream_loop_running:
  assumes "is_streaming s"
  shows "fst (stream_loop iv s prev es) = Running"
  using assms
proof (induction es arbitrary: s prev)
  case Nil
  then show ?case by simp
next
  case (Cons e es)
  obtain s' prev' fx where it: "producer_iteration iv s prev e = (s', prev', fx)"
    by (cases "producer_iteration iv s prev e") auto
  have "is_streaming s'"
    using producer_iteration_same(3)[of iv s prev e] Cons.prems by (simp add: it)
  then have "fst (stream_loop iv s' prev' es) = Running" by (rule Cons.IH)
  then show ?case
    using Cons.prems by (auto simp: it prepend_def split: prod.splits)
qed

lemma consumer_iteration_absorbed:
  "consumer_iteration s RecvTimeout = (Continue, s, [])"
  "consumer_iteration s BadJson = (Continue, s, [Log ERROR ''JSON decode error''])"
  by (simp_all add: consumer_iteration_def)

lemma consumer_iteration_raise:
  assumes "consumer_iteration s ev = (Raise ex, s', fx)"
  shows "fx = []"
  using assms
  by (auto simp: consumer_iteration_def dispatch_def on_frame_received_def
           calculate_ack_latency_def Let_def
           split: inbound.splits option.splits if_splits sum.splits)

text \<open>
  C4, as the claim states it, fails for \<open>handle_messages\<close>: when \<open>recv\<close> raises (the
  connection was closed), the handler around the loop logs the error and the coroutine
  returns, with no sleep and the next message unread. After a mere timeout the loop is
  still running.
\<close>

theorem consumer_fault_ends_loop:
  "is_streaming ready_client \<and> websocket ready_client \<noteq> None \<and>
   handle_messages ready_client [RecvRaises, Msg (ack 1 0) 102] =
     (Returned, ready_client, [Log ERROR ''Message handler error'']) \<and>
   fst (handle_messages ready_client [RecvTimeout, Msg (ack 1 0) 102]) = Running"
  by (simp add: ready_client_fields consumer_iteration_def dispatch_def on_frame_received_def
        calculate_ack_latency_def Let_def ack_fields prepend_def)

text \<open>
  C4, amended. In \<open>stream_frames\<close>, an exception that escapes a statement of an
  iteration is logged, followed by a sleep of 0.1 seconds; the streaming flag stays
  set, the loop runs the body of the next iteration from the state the faulty one left,
  and the loop does not return. In \<open>handle_messages\<close>, a receive timeout and a JSON
  decode error are absorbed, with no sleep, and the loop goes on from the same state;
  any other exception raised in an iteration is logged by the handler around the loop
  and \<open>handle_messages\<close> returns, with no sleep.
\<close>

theorem loop_faults:
  "(is_streaming s \<and> p_fault e \<noteq> None \<longrightarrow>
      (\<exists>s' fx. producer_iteration iv s prev e =
                 (s', prev, fx @ [Log ERROR ''Streaming error'', Sleep (1 / 10)]) \<and>
               is_streaming s' \<and>
               stream_loop iv s prev (e # e2 # es) =
                 prepend (fx @ [Log ERROR ''Streaming error'', Sleep (1 / 10)])
                   (prepend (snd (snd (producer_iteration iv s' prev e2)))
                      (stream_loop iv (fst (producer_iteration iv s' prev e2))
                         (fst (snd (producer_iteration iv s' prev e2))) es)) \<and>
               fst (stream_loop iv s prev (e # e2 # es)) = Running)) \<and>
   (is_streaming s \<and> websocket s \<noteq> None \<longrightarrow>
      handle_messages s (RecvTimeout # evs) = prepend [] (handle_messages s evs) \<and>
      handle_messages s (BadJson # evs) =
        prepend [Log ERROR ''JSON decode error''] (handle_messages s evs) \<and>
      (\<forall>ex s' fx. consumer_iteration s ev = (Raise ex, s', fx) \<longrightarrow>
         handle_messages s (ev # evs) = (Returned, s', [Log ERROR ''Message handler error''])))"
proof (intro conjI impI allI)
  assume a: "is_streaming s \<and> p_fault e \<noteq> None"
  then obtain s' fx where it: "producer_iteration iv s prev e =
      (s', prev, fx @ [Log ERROR ''Streaming error'', Sleep (1 / 10)])"
    using producer_iteration_fault[of e iv s prev] by blast
  have flag: "is_streaming s'"
    using producer_iteration_same(3)[of iv s prev e] a by (simp add: it)
  have next_it: "stream_loop iv s' prev (e2 # es) =
      prepend (snd (snd (producer_iteration iv s' prev e2)))
        (stream_loop iv (fst (producer_iteration iv s' prev e2))
           (fst (snd (producer_iteration iv s' prev e2))) es)"
    using flag by (simp split: prod.splits)
  have "stream_loop iv s prev (e # e2 # es) =
      prepend (fx @ [Log ERROR ''Streaming error'', Sleep (1 / 10)])
        (stream_loop iv s' prev (e2 # es))"
    using a by (simp add: it del: stream_loop.simps(2))
       (simp add: stream_loop.simps(2)[of iv s prev e] it)
  then have whole: "stream_loop iv s prev (e # e2 # es) =
      prepend (fx @ [Log ERROR ''Streaming error'', Sleep (1 / 10)])
        (prepend (snd (snd (producer_iteration iv s' prev e2)))
           (stream_loop iv (fst (producer_iteration iv s' prev e2))
              (fst (snd (producer_iteration iv s' prev e2))) es))"
    by (simp only: next_it)
  have run: "fst (stream_loop iv s prev (e # e2 # es)) = Running"
    using a by (intro stream_loop_running) simp
  show "\<exists>s' fx. producer_iteration iv s prev e =
                 (s', prev, fx @ [Log ERROR ''Streaming error'', Sleep (1 / 10)]) \<and>
               is_streaming s' \<and>
               stream_loop iv s prev (e # e2 # es) =
                 prepend (fx @ [Log ERROR ''Streaming error'', Sleep (1 / 10)])
                   (prepend (snd (snd (producer_iteration iv s' prev e2)))
                      (stream_loop iv (fst (producer_iteration iv s' prev e2))
                         (fst (snd (producer_iteration iv s' prev e2))) es)) \<and>
               fst (stream_loop iv s prev (e # e2 # es)) = Running"
    using it flag whole run by blast
next
  assume "is_streaming s \<and> websocket s \<noteq> None"
  then show "handle_messages s (RecvTimeout # evs) = prepend [] (handle_messages s evs)"
    by (auto simp: consumer_iteration_absorbed)
next
  assume "is_streaming s \<and> websocket s \<noteq> None"
  then show "handle_messages s (BadJson # evs) =
        prepend [Log ERROR ''JSON decode error''] (handle_messages s evs)"
    by (auto simp: consumer_iteration_absorbed)
next
  fix ex s' fx
  assume a: "is_streaming s \<and> websocket s \<noteq> None"
    and r: "consumer_iteration s ev = (Raise ex, s', fx)"
  show "handle_messages s (ev # evs) = (Returned, s', [Log ERROR ''Message handler error''])"
    using a r consumer_iteration_raise[OF r] by auto
qed

theorem loop_faults_witness:
  "is_streaming ready_client \<and>
   p_fault ((grab (Grabbed ''a'') True)\<lparr>p_fault := Some AtPacing\<rparr>) \<noteq> None \<and>
   websocket ready_client \<noteq> None \<and>
   consumer_iteration ready_client NonObject = (Raise AttributeError, ready_client, []) \<and>
   stream_loop (1 / 10) ready_client 100
       [(grab (Grabbed ''a'') True)\<lparr>p_fault := Some AtPacing\<rparr>, grab ReadFailed True] =
     (Running, ready_client\<lparr>frame_count := 1, send_times := [(1, 101)]\<rparr>,
      [WsSend (Frame 1 ''a'' 101), Log ERROR ''Streaming error'', Sleep (1 / 10),
       Log WARNING ''Failed to capture frame'']) \<and>
   handle_messages ready_client [NonObject, RecvTimeout] =
     (Returned, ready_client, [Log ERROR ''Message handler error''])"
proof -
  let ?e = "(grab (Grabbed ''a'') True)\<lparr>p_fault := Some AtPacing\<rparr>"
  let ?s1 = "ready_client\<lparr>frame_count := 1, send_times := [(1, 101)]\<rparr>"
  have c: "consumer_iteration ready_client NonObject = (Raise AttributeError, ready_client, [])"
    by (simp add: consumer_iteration_def)
  have h: "is_streaming ready_client" "websocket ready_client \<noteq> None" "p_fault ?e \<noteq> None"
    by (simp_all add: ready_client_fields)
  have it: "producer_iteration (1 / 10) ready_client 100 ?e =
      (?s1, 100, [WsSend (Frame 1 ''a'' 101)] @ [Log ERROR ''Streaming error'', Sleep (1 / 10)])"
    by (simp add: ready_client_fields producer_iteration_def capture_frame_def send_frame_def
          grab_def Let_def)
  have it2: "producer_iteration (1 / 10) ?s1 100 (grab ReadFailed True) =
      (?s1, 102, [Log WARNING ''Failed to capture frame''])"
    by (simp add: ready_client_fields producer_iteration_def capture_frame_def grab_def Let_def)
  from loop_faults[of ready_client ?e "1 / 10" 100 "grab ReadFailed True" "[]" "[RecvTimeout]"
      NonObject]
  have p: "\<exists>s' fx. producer_iteration (1 / 10) ready_client 100 ?e =
                 (s', 100, fx @ [Log ERROR ''Streaming error'', Sleep (1 / 10)]) \<and>
               is_streaming s' \<and>
               stream_loop (1 / 10) ready_client 100 [?e, grab ReadFailed True] =
                 prepend (fx @ [Log ERROR ''Streaming error'', Sleep (1 / 10)])
                   (prepend (snd (snd (producer_iteration (1 / 10) s' 100 (grab ReadFailed True))))
                      (stream_loop (1 / 10)
                         (fst (producer_iteration (1 / 10) s' 100 (grab ReadFailed True)))
                         (fst (snd (producer_iteration (1 / 10) s' 100 (grab ReadFailed True))))
                         [])) \<and>
               fst (stream_loop (1 / 10) ready_client 100 [?e, grab ReadFailed True]) = Running"
    and q: "handle_messages ready_client [NonObject, RecvTimeout] =
     (Returned, ready_client, [Log ERROR ''Message handler error''])"
    using h c by blast+
  from p obtain s' fx where
    e1: "producer_iteration (1 / 10) ready_client 100 ?e =
           (s', 100, fx @ [Log ERROR ''Streaming error'', Sleep (1 / 10)])"
    and e2: "stream_loop (1 / 10) ready_client 100 [?e, grab ReadFailed True] =
                 prepend (fx @ [Log ERROR ''Streaming error'', Sleep (1 / 10)])
                   (prepend (snd (snd (producer_iteration (1 / 10) s' 100 (grab ReadFailed True))))
                      (stream_loop (1 / 10)
                         (fst (producer_iteration (1 / 10) s' 100 (grab ReadFailed True)))
                         (fst (snd (producer_iteration (1 / 10) s' 100 (grab ReadFailed True))))
                         []))"
    by blast
  have s': "s' = ?s1" and fx: "fx = [WsSend (Frame 1 ''a'' 101)]"
    using e1 unfolding it by simp_all
  have st: "stream_loop (1 / 10) ready_client 100 [?e, grab ReadFailed True] =
     (Running, ?s1,
      [WsSend (Frame 1 ''a'' 101), Log ERROR ''Streaming error'', Sleep (1 / 10),
       Log WARNING ''Failed to capture frame''])"
    unfolding e2 s' fx it2 by (simp add: prepend_def ready_client_fields)
  show ?thesis using h c st q by blast
qed

subsection \<open>Which messages end the consumer loop\<close>

lemma dispatch_disconnect:
  assumes "f_type data = Some ''disconnect''"
  shows "dispatch s data t =
           (Break, s\<lparr>is_streaming := False\<rparr>,
            [Log WARNING (''Server disconnecting: '' @ get_or (f_reason data) ''Unknown'')])"
  using assms by (simp add: dispatch_def)

lemma on_frame_received_numbered:
  assumes "f_frame_number data = Some k"
  shows "\<exists>s' fx. on_frame_received s data t = (Continue, s', fx) \<and>
           is_streaming s' = is_streaming s \<and> websocket s' = websocket s"
  using assms
  by (auto simp: on_frame_received_def calculate_ack_latency_def Let_def split: option.splits)

lemma dispatch_continues:
  assumes "f_type data \<noteq> Some ''disconnect''"
    and "f_type data = Some ''frame_received'' \<longrightarrow> f_frame_number data \<noteq> None"
    and "f_type data = Some ''processing_complete'' \<longrightarrow>
           (\<exists>line. on_processing_complete data = Inr line)"
  shows "\<exists>s' fx. dispatch s data t = (Continue, s', fx) \<and>
           is_streaming s' = is_streaming s \<and> websocket s' = websocket s"
proof (cases "f_type data = Some ''frame_received''")
  case True
  then obtain k where "f_frame_number data = Some k" using assms(2) by auto
  then show ?thesis
    using on_frame_received_numbered[of data k s t] True by (simp add: dispatch_def)
next
  case False
  then show ?thesis using assms(1,3) by (auto simp add: dispatch_def Let_def)
qed

lemma disconnect_message_ends_loop:
  assumes "is_streaming s" and "websocket s \<noteq> None" and "f_type data = Some ''disconnect''"
  shows "handle_messages s (Msg data t # evs) =
           (Returned, s\<lparr>is_streaming := False\<rparr>,
            [Log WARNING (''Server disconnecting: '' @ get_or (f_reason data) ''Unknown'')])"
  using assms by (auto simp: consumer_iteration_def dispatch_disconnect)

lemma other_message_continues:
  assumes "is_streaming s" and "websocket s \<noteq> None"
    and "f_type data \<noteq> Some ''disconnect''"
    and "f_type data = Some ''frame_received'' \<longrightarrow> f_frame_number data \<noteq> None"
    and "f_type data = Some ''processing_complete'' \<longrightarrow>
           (\<exists>line. on_processing_complete data = Inr line)"
  shows "\<exists>s' fx. consumer_iteration s (Msg data t) = (Continue, s', fx) \<and>
           is_streaming s' \<and> websocket s' = websocket s \<and>
           handle_messages s (Msg data t # evs) = prepend fx (handle_messages s' evs)"
proof -
  obtain s' fx where d: "dispatch s data t = (Continue, s', fx)"
      "is_streaming s' = is_streaming s" "websocket s' = websocket s"
    using dispatch_continues[OF assms(3,4,5), of s t] by blast
  have it: "consumer_iteration s (Msg data t) = (Continue, s', fx)"
    by (simp add: consumer_iteration_def d(1))
  have "handle_messages s (Msg data t # evs) = prepend fx (handle_messages s' evs)"
    using assms(1,2) by (auto simp: it)
  then show ?thesis using it d(2,3) assms(1) by auto
qed

lemma null_result_ends_loop:
  "handle_messages ready_client
       [Msg ((push ''processing_complete'')\<lparr>f_result := Some JNull\<rparr>) 102, Msg (ack 1 0) 103] =
     (Returned, ready_client, [Log ERROR ''Message handler error''])"
  by (simp add: ready_client_fields push_def blank_def consumer_iteration_def dispatch_def
        on_processing_complete_def py_bind_def py_get_def get_or_def Let_def)

text \<open>
  C8. The streaming client receives \<open>{"type": "frame_received"}\<close>, with no
  \<open>frame_number\<close>: \<open>data.get("frame_number")\<close> is \<open>None\<close>, \<open>frame_num % 50\<close> raises
  \<open>TypeError\<close>, the handler around the loop logs it, and \<open>handle_messages\<close> returns with
  the streaming flag still set and the next message unread. The message has a
  control-flow effect: the consumer loop is no longer running.
\<close>

theorem unnumbered_ack_ends_loop:
  "f_type (blank\<lparr>f_type := Some ''frame_received''\<rparr>) = Some ''frame_received'' \<and>
   is_streaming ready_client \<and> websocket ready_client \<noteq> None \<and>
   handle_messages ready_client
       [Msg (blank\<lparr>f_type := Some ''frame_received''\<rparr>) 102, Msg (ack 1 0) 103] =
     (Returned, ready_client, [Log ERROR ''Message handler error''])"
  by (simp add: ready_client_def init_def blank_def consumer_iteration_def dispatch_def
        on_frame_received_def calculate_ack_latency_def Let_def)

end
